theory Spec2Isabelle
  imports Complex_Main
begin

section \<open>Data model of process-earnings.js\<close>

text \<open>
  A JavaScript \<open>Date\<close> is its \<open>getTime()\<close> value: an integer number of milliseconds
  since the epoch (UTC). A calendar date string \<open>"YYYY-MM-DD"\<close>, as the data provider
  writes it in the \<open>date\<close> fields and as \<open>toISOString().split('T')[0]\<close> produces it,
  is represented by its day number (whole days since the epoch): two such strings are
  equal exactly when their day numbers are. Date strings in another format and the
  range limit of \<open>Date\<close> are outside the model.

  A JavaScript number is an IEEE 754 binary64 value: a finite double is represented by
  the real number it denotes (\<open>Number\<close>, with \<open>+0\<close> and \<open>-0\<close> identified), beside the
  two infinities and \<open>NaN\<close>. Every arithmetic operation rounds its exact result to the
  nearest double, ties to even (section on double arithmetic below). The two zeros differ
  only as divisors, and the program never divides by a zero: the divisors are a
  before-price that passed the test \<open>> 0\<close> and a length that is not 0. \<open>Number\<close> is
  not restricted to the reals that are doubles: \<open>parseFloat\<close> is a parameter, and the
  operations round whatever exact result their arguments give.
\<close>

type_synonym msec = int
type_synonym isodate = int

datatype jsnum = Number real | Infinity | MinusInfinity | NaN

text \<open>An element of \<open>earningsData.earnings\<close>: an object with a \<open>date\<close> field.
  An element of \<open>priceData\<close> has a \<open>date\<close> and a \<open>close\<close> field; the raw JSON value
  of \<open>close\<close> has type \<open>'c\<close> and \<open>parseFloat\<close> is a parameter of the model.\<close>

record dated =
  date :: isodate

record 'c price_point = dated +
  close :: 'c

text \<open>\<open>fetchJSON\<close>: the promise rejects (network fault, status other than 200 and
  404, invalid JSON), resolves to \<open>{notFound: true}\<close> on 404, or resolves to the
  parsed body.\<close>

datatype 'a fetched = Rejected | NotFound | Body 'a

text \<open>The body of the calendar response is an object whose \<open>earnings\<close> field is absent
  (\<open>None\<close>) or an array. The body of the price response is an array or something else.\<close>

type_synonym earnings_data = "dated list option"

datatype 'c price_data = NotArray | PriceArray "'c price_point list"

record summary =
  symbol :: string
  nextDate :: isodate
  avgMove :: jsnum
  lastUpdated :: msec

text \<open>The Redis store: key to value and expiry in seconds.\<close>

type_synonym redis = "string \<rightharpoonup> (summary \<times> nat)"

text \<open>What the outside world answers while one symbol is processed: the clock read at
  the start (\<open>today\<close>), the two responses, whether \<open>redis.set\<close> succeeds, and the clock
  read for \<open>lastUpdated\<close>.\<close>

record 'c world =
  today :: msec
  calendar :: "earnings_data fetched"
  prices :: "'c price_data fetched"
  redisSetOk :: bool
  stamp :: msec

datatype error = FetchError | RedisError

section \<open>Dates\<close>

definition DAY :: int where
  "DAY = 86400000"

text \<open>\<open>new Date("YYYY-MM-DD")\<close>: midnight UTC of that day.\<close>

definition newDate :: "isodate \<Rightarrow> msec" where
  "newDate d = d * DAY"

text \<open>\<open>date.toISOString().split('T')[0]\<close>: the UTC calendar day of the instant.\<close>

definition toISODate :: "msec \<Rightarrow> isodate" where
  "toISODate t = t div DAY"

section \<open>Double arithmetic\<close>

text \<open>The binary exponent of a positive real, searched upwards from 0 for \<open>x \<ge> 1\<close> and
  downwards from -1 for \<open>x < 1\<close>: \<open>expUp x 0\<close> is the \<open>k \<le> 1023\<close> with
  \<open>2 ^ k \<le> x < 2 ^ (k + 1)\<close> (1023 beyond), \<open>expDown x 1\<close> the \<open>k \<le> 1022\<close> with
  \<open>2 ^ - k \<le> x < 2 ^ - (k - 1)\<close> (1022 for the subnormal range).\<close>

function expUp :: "real \<Rightarrow> nat \<Rightarrow> nat" where
  "expUp x k = (if k < 1023 \<and> 2 ^ (k + 1) \<le> x then expUp x (k + 1) else k)"
  by pat_completeness auto
termination
  by (relation "measure (\<lambda>(x, k). 1023 - k)") auto

function expDown :: "real \<Rightarrow> nat \<Rightarrow> nat" where
  "expDown x k = (if k < 1022 \<and> x * 2 ^ k < 1 then expDown x (k + 1) else k)"
  by pat_completeness auto
termination
  by (relation "measure (\<lambda>(x, k). 1022 - k)") auto

text \<open>The distance between neighbouring doubles at a positive \<open>x\<close>: \<open>2 ^ (e - 52)\<close> for
  the exponent \<open>e\<close> of \<open>x\<close>, and \<open>2 ^ - 1074\<close> in the subnormal range.\<close>

definition quantum :: "real \<Rightarrow> real" where
  "quantum x =
     (if 1 \<le> x then 2 ^ expUp x 0 / 2 ^ 52 else 1 / (2 ^ expDown x 1 * 2 ^ 52))"

text \<open>The nearest integer, the even one of two.\<close>

definition roundEven :: "real \<Rightarrow> int" where
  "roundEven m =
     (let n = \<lfloor>m\<rfloor>; f = m - real_of_int n
      in if f < 1 / 2 then n else if 1 / 2 < f then n + 1
         else if even n then n else n + 1)"

text \<open>Round to nearest, ties to even: the double that an operation returns for the exact
  result \<open>x\<close>. A magnitude that rounds to \<open>2 ^ 1024\<close> or more overflows to an infinity.\<close>

definition round64 :: "real \<Rightarrow> jsnum" where
  "round64 x =
     (if x = 0 then Number 0
      else
        (let q = quantum \<bar>x\<bar>; r = real_of_int (roundEven (\<bar>x\<bar> / q)) * q
         in if 2 ^ 1024 \<le> r then (if 0 < x then Infinity else MinusInfinity)
            else Number (if 0 < x then r else - r)))"

fun jsNeg :: "jsnum \<Rightarrow> jsnum" where
  "jsNeg (Number x) = Number (- x)"
| "jsNeg Infinity = MinusInfinity"
| "jsNeg MinusInfinity = Infinity"
| "jsNeg NaN = NaN"

text \<open>\<open>Math.abs\<close>\<close>

fun jsAbs :: "jsnum \<Rightarrow> jsnum" where
  "jsAbs (Number x) = Number \<bar>x\<bar>"
| "jsAbs Infinity = Infinity"
| "jsAbs MinusInfinity = Infinity"
| "jsAbs NaN = NaN"

text \<open>\<open>+\<close>, \<open>-\<close>, \<open>*\<close> and \<open>/\<close> on numbers. Earlier equations win.\<close>

fun jsAdd :: "jsnum \<Rightarrow> jsnum \<Rightarrow> jsnum" where
  "jsAdd (Number x) (Number y) = round64 (x + y)"
| "jsAdd NaN _ = NaN"
| "jsAdd _ NaN = NaN"
| "jsAdd Infinity MinusInfinity = NaN"
| "jsAdd MinusInfinity Infinity = NaN"
| "jsAdd Infinity _ = Infinity"
| "jsAdd _ Infinity = Infinity"
| "jsAdd MinusInfinity _ = MinusInfinity"
| "jsAdd _ MinusInfinity = MinusInfinity"

definition jsSub :: "jsnum \<Rightarrow> jsnum \<Rightarrow> jsnum" where
  "jsSub x y = jsAdd x (jsNeg y)"

fun jsMul :: "jsnum \<Rightarrow> jsnum \<Rightarrow> jsnum" where
  "jsMul (Number x) (Number y) = round64 (x * y)"
| "jsMul NaN _ = NaN"
| "jsMul _ NaN = NaN"
| "jsMul (Number x) y = (if x = 0 then NaN else if 0 < x then y else jsNeg y)"
| "jsMul x (Number y) = (if y = 0 then NaN else if 0 < y then x else jsNeg x)"
| "jsMul Infinity y = y"
| "jsMul MinusInfinity y = jsNeg y"

text \<open>A zero divisor is taken as \<open>+0\<close>.\<close>

fun jsDiv :: "jsnum \<Rightarrow> jsnum \<Rightarrow> jsnum" where
  "jsDiv (Number x) (Number y) =
     (if y = 0 then (if x = 0 then NaN else if 0 < x then Infinity else MinusInfinity)
      else round64 (x / y))"
| "jsDiv NaN _ = NaN"
| "jsDiv _ NaN = NaN"
| "jsDiv (Number x) _ = Number 0"
| "jsDiv x (Number y) = (if 0 \<le> y then x else jsNeg x)"
| "jsDiv _ _ = NaN"

section \<open>findPriceOnDate\<close>

function findPriceLoop ::
  "('c \<Rightarrow> jsnum) \<Rightarrow> 'c price_point list \<Rightarrow> msec \<Rightarrow> nat \<Rightarrow> jsnum option" where
  "findPriceLoop parseFloat priceData targetDate i =
     (if i < 5 then
        (let dateToTry = targetDate - int i * DAY;
             dateString = toISODate dateToTry
         in case List.find (\<lambda>d. date d = dateString) priceData of
              Some match \<Rightarrow> Some (parseFloat (close match))
            | None \<Rightarrow> findPriceLoop parseFloat priceData targetDate (i + 1))
      else None)"
  by pat_completeness auto
termination
  by (relation "measure (\<lambda>(pf, ps, t, i). 5 - i)") auto

definition findPriceOnDate ::
  "('c \<Rightarrow> jsnum) \<Rightarrow> 'c price_point list \<Rightarrow> msec \<Rightarrow> jsnum option" where
  "findPriceOnDate parseFloat priceData targetDate =
     findPriceLoop parseFloat priceData targetDate 0"

section \<open>processSymbol\<close>

text \<open>A number in a condition: \<open>NaN\<close> and \<open>0\<close> count as false, every other number
  as true (\<open>null\<close> counts as false too). \<open>greater0\<close> is the comparison \<open>> 0\<close>.\<close>

fun truthy :: "jsnum \<Rightarrow> bool" where
  "truthy (Number x) = (x \<noteq> 0)"
| "truthy Infinity = True"
| "truthy MinusInfinity = True"
| "truthy NaN = False"

fun greater0 :: "jsnum \<Rightarrow> bool" where
  "greater0 (Number x) = (0 < x)"
| "greater0 Infinity = True"
| "greater0 MinusInfinity = False"
| "greater0 NaN = False"

text \<open>\<open>Math.abs((afterPrice - beforePrice) / beforePrice) * 100\<close>\<close>

definition percentMove :: "jsnum \<Rightarrow> jsnum \<Rightarrow> jsnum" where
  "percentMove beforePrice afterPrice =
     jsMul (jsAbs (jsDiv (jsSub afterPrice beforePrice) beforePrice)) (Number 100)"

text \<open>Step 3, the loop over \<open>earningsData.earnings\<close> that pushes onto \<open>moves\<close>.\<close>

fun movesLoop ::
  "('c \<Rightarrow> jsnum) \<Rightarrow> 'c price_point list \<Rightarrow> dated list \<Rightarrow> jsnum list \<Rightarrow> jsnum list" where
  "movesLoop parseFloat priceData [] moves = moves"
| "movesLoop parseFloat priceData (earning # rest) moves =
     (let earningsDate = newDate (date earning);
          beforePrice = findPriceOnDate parseFloat priceData (earningsDate - DAY);
          afterPrice = findPriceOnDate parseFloat priceData (earningsDate + DAY)
      in case (beforePrice, afterPrice) of
           (Some b, Some a) \<Rightarrow>
             if truthy b \<and> truthy a \<and> greater0 b
             then movesLoop parseFloat priceData rest (moves @ [percentMove b a])
             else movesLoop parseFloat priceData rest moves
         | _ \<Rightarrow> movesLoop parseFloat priceData rest moves)"

text \<open>\<open>moves.reduce((a, b) => a + b, 0) / moves.length\<close>\<close>

definition average :: "jsnum list \<Rightarrow> jsnum" where
  "average moves = jsDiv (foldl jsAdd (Number 0) moves) (Number (real (length moves)))"

text \<open>The decimal that \<open>x.toFixed(2)\<close> writes for a finite \<open>x\<close> of magnitude below
  \<open>10 ^ 21\<close>: \<open>Number.prototype.toFixed\<close> treats the sign apart and, on the magnitude,
  takes the integer \<open>n\<close> with \<open>n / 100\<close> nearest to the exact value of \<open>x\<close>, the larger
  one of two.\<close>

definition fixed2 :: "real \<Rightarrow> real" where
  "fixed2 x =
     (if x < 0 then - (real_of_int \<lfloor>(- x) * 100 + 1 / 2\<rfloor> / 100)
      else real_of_int \<lfloor>x * 100 + 1 / 2\<rfloor> / 100)"

text \<open>\<open>parseFloat(x.toFixed(2))\<close>: \<open>parseFloat\<close> reads the decimal back as the nearest
  double. From \<open>10 ^ 21\<close> on, and for the infinities and \<open>NaN\<close>, \<open>toFixed\<close> writes the
  number as \<open>String\<close> does, and \<open>parseFloat\<close> reads the same number back.\<close>

fun toFixed2 :: "jsnum \<Rightarrow> jsnum" where
  "toFixed2 (Number x) = (if 10 ^ 21 \<le> \<bar>x\<bar> then Number x else round64 (fixed2 x))"
| "toFixed2 Infinity = Infinity"
| "toFixed2 MinusInfinity = MinusInfinity"
| "toFixed2 NaN = NaN"

definition TTL :: nat where
  "TTL = 2592000"

definition redisKey :: "string \<Rightarrow> string" where
  "redisKey symb = ''earnings:'' @ symb"

text \<open>The body of the \<open>try\<close> block: \<open>Inl\<close> is a thrown error, \<open>Inr None\<close> is
  \<open>return null\<close>, \<open>Inr (Some result)\<close> is \<open>return result\<close>. The store is returned
  as the block leaves it.\<close>

definition tryBlock ::
  "('c \<Rightarrow> jsnum) \<Rightarrow> 'c world \<Rightarrow> redis \<Rightarrow> string \<Rightarrow> (error + summary option) \<times> redis" where
  "tryBlock parseFloat w store symb =
     (case calendar w of
        Rejected \<Rightarrow> (Inl FetchError, store)
      | NotFound \<Rightarrow> (Inr None, store)
      | Body None \<Rightarrow> (Inr None, store)
      | Body (Some earnings) \<Rightarrow>
          if length earnings = 0 then (Inr None, store)
          else
            (case prices w of
               Rejected \<Rightarrow> (Inl FetchError, store)
             | NotFound \<Rightarrow> (Inr None, store)
             | Body NotArray \<Rightarrow> (Inr None, store)
             | Body (PriceArray priceData) \<Rightarrow>
                 if length priceData < 10 then (Inr None, store)
                 else
                   (let moves = movesLoop parseFloat priceData earnings [] in
                    if length moves = 0 then (Inr None, store)
                    else
                      (let avg = average moves;
                           futureEarnings = filter (\<lambda>e. newDate (date e) > today w) earnings
                       in case futureEarnings of
                            [] \<Rightarrow> (Inr None, store)
                          | e # _ \<Rightarrow>
                              (let result = \<lparr>symbol = symb, nextDate = date e,
                                             avgMove = toFixed2 avg, lastUpdated = stamp w\<rparr>
                               in if redisSetOk w
                                  then (Inr (Some result),
                                        store(redisKey symb \<mapsto> (result, TTL)))
                                  else (Inl RedisError, store))))))"

text \<open>The \<open>catch\<close> turns every thrown error into \<open>null\<close>.\<close>

definition processSymbol ::
  "('c \<Rightarrow> jsnum) \<Rightarrow> 'c world \<Rightarrow> redis \<Rightarrow> string \<Rightarrow> summary option \<times> redis" where
  "processSymbol parseFloat w store symb =
     (case tryBlock parseFloat w store symb of
        (Inl err, store') \<Rightarrow> (None, store')
      | (Inr r, store') \<Rightarrow> (r, store'))"

section \<open>main\<close>

definition BATCH_SIZE :: nat where
  "BATCH_SIZE = 900"

text \<open>\<open>SYMBOLS.slice(i, j)\<close> for \<open>0 \<le> i \<le> j\<close>: the end is clamped to the length.\<close>

definition slice :: "'a list \<Rightarrow> nat \<Rightarrow> nat \<Rightarrow> 'a list" where
  "slice xs i j = take (j - i) (drop i xs)"

text \<open>\<open>Promise.all(batch.map(symbol => processSymbol(symbol)))\<close>: one result per symbol,
  in the order of the batch. The calls run interleaved in the source; the model runs
  them in batch order, each on the world \<open>env\<close> gives its symbol.\<close>

fun processBatch ::
  "('c \<Rightarrow> jsnum) \<Rightarrow> (string \<Rightarrow> 'c world) \<Rightarrow> string list \<Rightarrow> redis
     \<Rightarrow> summary option list \<times> redis" where
  "processBatch parseFloat env [] store = ([], store)"
| "processBatch parseFloat env (s # batch) store =
     (case processSymbol parseFloat (env s) store s of
        (r, store1) \<Rightarrow>
          (case processBatch parseFloat env batch store1 of
             (rs, store2) \<Rightarrow> (r # rs, store2)))"

text \<open>The awaited steps of \<open>main\<close> in the order they complete.\<close>

datatype step = Batch "string list" | Sleep nat

record run =
  processed :: nat
  successful :: nat
  failed :: nat
  cache :: redis
  steps :: "step list"

function mainLoop ::
  "('c \<Rightarrow> jsnum) \<Rightarrow> (string \<Rightarrow> 'c world) \<Rightarrow> string list \<Rightarrow> nat \<Rightarrow> run \<Rightarrow> run" where
  "mainLoop parseFloat env SYMBOLS i st =
     (if i < length SYMBOLS then
        (let batch = slice SYMBOLS i (i + BATCH_SIZE) in
         case processBatch parseFloat env batch (cache st) of
           (results, store') \<Rightarrow>
             (let st1 = \<lparr>processed = processed st + length batch,
                         successful = successful st + length (filter (\<lambda>r. r \<noteq> None) results),
                         failed = failed st + length (filter (\<lambda>r. r = None) results),
                         cache = store',
                         steps = steps st @ [Batch batch]\<rparr>;
                  st2 = (if i + BATCH_SIZE < length SYMBOLS
                         then st1\<lparr>steps := steps st1 @ [Sleep 60000]\<rparr>
                         else st1)
              in mainLoop parseFloat env SYMBOLS (i + BATCH_SIZE) st2))
      else st)"
  by pat_completeness auto
termination
  by (relation "measure (\<lambda>(pf, env, SYMBOLS, i, st). length SYMBOLS - i)")
     (auto simp: BATCH_SIZE_def)

text \<open>\<open>getAllSymbols\<close>: the \<open>Code\<close> of every record of the response; a rejected fetch,
  and a 404 (whose \<open>{notFound: true}\<close> has no \<open>map\<close>), end the process with status 1.\<close>

datatype outcome = Exit nat | Completed run

definition getAllSymbols :: "string list fetched \<Rightarrow> nat + string list" where
  "getAllSymbols response =
     (case response of
        Rejected \<Rightarrow> Inl 1
      | NotFound \<Rightarrow> Inl 1
      | Body codes \<Rightarrow> Inr codes)"

definition main ::
  "('c \<Rightarrow> jsnum) \<Rightarrow> string list fetched \<Rightarrow> (string \<Rightarrow> 'c world) \<Rightarrow> redis \<Rightarrow> outcome" where
  "main parseFloat response env store =
     (case getAllSymbols response of
        Inl code \<Rightarrow> Exit code
      | Inr SYMBOLS \<Rightarrow>
          Completed (mainLoop parseFloat env SYMBOLS 0
            \<lparr>processed = 0, successful = 0, failed = 0, cache = store, steps = []\<rparr>))"



section \<open>The schedule of the specification\<close>



section \<open>Example inputs\<close>


definition example_prices :: "real price_point list" where
  "example_prices =
     [\<lparr>date = 19299, close = 80\<rparr>, \<lparr>date = 19301, close = 103\<rparr>,
      \<lparr>date = 19399, close = 100\<rparr>, \<lparr>date = 19401, close = 105\<rparr>,
      \<lparr>date = 19449, close = 100\<rparr>, \<lparr>date = 19451, close = 110\<rparr>,
      \<lparr>date = 19506, close = 100\<rparr>, \<lparr>date = 19507, close = 100\<rparr>,
      \<lparr>date = 19508, close = 100\<rparr>, \<lparr>date = 19509, close = 104\<rparr>,
      \<lparr>date = 19510, close = 115\<rparr>, \<lparr>date = 19511, close = 112\<rparr>]"

definition example_world :: "dated list \<Rightarrow> real world" where
  "example_world events =
     \<lparr>today = 1717243200000, calendar = Body (Some events),
      prices = Body (PriceArray example_prices), redisSetOk = True,
      stamp = 1717243200500\<rparr>"

section \<open>Rounding to the nearest double\<close>

declare expUp.simps [simp del]
declare expDown.simps [simp del]

text \<open>
  What \<open>round64\<close> returns is within half the distance between neighbouring doubles of
  the exact result, so within a relative error of \<open>2 ^ - 53\<close> from the smallest normal
  double on; from \<open>2 ^ 1024\<close> on it is \<open>Infinity\<close>.
\<close>

lemma quantum_pos: "0 < quantum x"
  by (simp add: quantum_def)

lemma roundEven_near: "\<bar>real_of_int (roundEven m) - m\<bar> \<le> 1 / 2"
proof -
  define n where "n = \<lfloor>m\<rfloor>"
  have "real_of_int n \<le> m" "m < real_of_int n + 1" unfolding n_def by linarith+
  then show ?thesis
    unfolding roundEven_def Let_def n_def [symmetric] by (auto simp: abs_if)
qed

lemma round64_nearest:
  assumes "round64 x = Number r"
  shows "\<bar>r - x\<bar> \<le> quantum \<bar>x\<bar> / 2"
proof (cases "x = 0")
  case True
  with assms have "r = 0" by (simp add: round64_def)
  with True quantum_pos [of 0] show ?thesis by simp
next
  case False
  define q where "q = quantum \<bar>x\<bar>"
  define n where "n = roundEven (\<bar>x\<bar> / q)"
  have q: "0 < q" by (simp add: q_def quantum_pos)
  from assms False have r: "r = (if 0 < x then real_of_int n * q else - (real_of_int n * q))"
    by (simp add: round64_def Let_def q_def n_def split: if_splits)
  have "\<bar>real_of_int n - \<bar>x\<bar> / q\<bar> \<le> 1 / 2" unfolding n_def by (rule roundEven_near)
  with q have "\<bar>real_of_int n - \<bar>x\<bar> / q\<bar> * q \<le> 1 / 2 * q"
    by (intro mult_right_mono) simp_all
  moreover have "\<bar>real_of_int n - \<bar>x\<bar> / q\<bar> * q = \<bar>real_of_int n * q - \<bar>x\<bar>\<bar>"
  proof -
    have "\<bar>real_of_int n - \<bar>x\<bar> / q\<bar> * q = \<bar>(real_of_int n - \<bar>x\<bar> / q) * q\<bar>"
      using q by (simp add: abs_mult)
    also have "(real_of_int n - \<bar>x\<bar> / q) * q = real_of_int n * q - \<bar>x\<bar>"
      using q by (simp add: algebra_simps)
    finally show ?thesis .
  qed
  ultimately have "\<bar>real_of_int n * q - \<bar>x\<bar>\<bar> \<le> q / 2" by simp
  with r show ?thesis unfolding q_def [symmetric] by (auto simp: abs_if split: if_splits)
qed

lemma expUp_le: "2 ^ k \<le> x \<Longrightarrow> 2 ^ expUp x k \<le> x"
proof (induction x k rule: expUp.induct)
  case (1 x k)
  show ?case
  proof (cases "k < 1023 \<and> 2 ^ (k + 1) \<le> x")
    case True
    with "1.IH" have "2 ^ expUp x (k + 1) \<le> x" by simp
    with True show ?thesis by (subst expUp.simps) simp
  next
    case False
    with "1.prems" show ?thesis by (subst expUp.simps) auto
  qed
qed

lemma expDown_ge: "k \<le> 1022 \<Longrightarrow> 1 \<le> x * 2 ^ 1022 \<Longrightarrow> 1 \<le> x * 2 ^ expDown x k"
proof (induction x k rule: expDown.induct)
  case (1 x k)
  show ?case
  proof (cases "k < 1022 \<and> x * 2 ^ k < 1")
    case True
    with "1.IH" "1.prems" have "1 \<le> x * 2 ^ expDown x (k + 1)" by simp
    with True show ?thesis by (subst expDown.simps) simp
  next
    case False
    then have "k = 1022 \<or> 1 \<le> x * 2 ^ k" using "1.prems"(1) by auto
    with "1.prems"(2) have "1 \<le> x * 2 ^ k" by auto
    with False show ?thesis by (subst expDown.simps) auto
  qed
qed

lemma quantum_le:
  assumes "1 / 2 ^ 1022 \<le> x"
  shows "quantum x \<le> x / 2 ^ 52"
proof (cases "1 \<le> x")
  case True
  then have "2 ^ 0 \<le> x" by simp
  then have "2 ^ expUp x 0 \<le> x" by (rule expUp_le)
  with True show ?thesis by (simp add: quantum_def divide_right_mono)
next
  case False
  from assms have "1 \<le> x * 2 ^ 1022" by (simp add: pos_divide_le_eq)
  then have "1 \<le> x * 2 ^ expDown x 1" by (intro expDown_ge) simp_all
  then have "1 / 2 ^ expDown x 1 \<le> x" by (simp add: pos_divide_le_eq)
  then have "1 / 2 ^ expDown x 1 / 2 ^ 52 \<le> x / 2 ^ 52" by (rule divide_right_mono) simp
  with False show ?thesis by (simp add: quantum_def)
qed

lemma round64_relative:
  assumes "round64 x = Number r" and "1 / 2 ^ 1022 \<le> \<bar>x\<bar>"
  shows "\<bar>r - x\<bar> \<le> \<bar>x\<bar> / 2 ^ 53"
proof -
  from quantum_le [OF assms(2)] have "quantum \<bar>x\<bar> / 2 \<le> \<bar>x\<bar> / 2 ^ 52 / 2" by simp
  also have "\<bar>x\<bar> / 2 ^ 52 / 2 = \<bar>x\<bar> / 2 ^ 53" by simp
  finally show ?thesis using round64_nearest [OF assms(1)] by linarith
qed

lemma expUp_top: "k \<le> 1023 \<Longrightarrow> 2 ^ 1023 \<le> x \<Longrightarrow> expUp x k = 1023"
proof (induction x k rule: expUp.induct)
  case (1 x k)
  show ?case
  proof (cases "k < 1023")
    case True
    then have "(2::real) ^ (k + 1) \<le> 2 ^ 1023" by (intro power_increasing) simp_all
    with "1.prems"(2) have le: "2 ^ (k + 1) \<le> x" by linarith
    with True "1.IH" "1.prems"(2) have "expUp x (k + 1) = 1023" by simp
    with True le show ?thesis by (subst expUp.simps) simp
  next
    case False
    with "1.prems"(1) have "k = 1023" by simp
    then show ?thesis by (subst expUp.simps) simp
  qed
qed

lemma roundEven_ge_floor: "\<lfloor>m\<rfloor> \<le> roundEven m"
  by (simp add: roundEven_def Let_def)

lemma round64_overflows:
  assumes "2 ^ 1024 \<le> x"
  shows "round64 x = Infinity"
proof -
  define q :: real where "q = 2 ^ 1023 / 2 ^ 52"
  have p: "(2::real) ^ 1024 = 2 ^ 53 * q" "0 < q" by (simp_all add: q_def)
  have "(2::real) ^ 1023 \<le> 2 ^ 1024" by (intro power_increasing) simp_all
  with assms have x: "2 ^ 1023 \<le> x" by linarith
  have "(1::real) \<le> 2 ^ 1023" by (rule one_le_power) simp
  with x have x1: "1 \<le> x" "0 < x" by linarith+
  have e: "expUp x 0 = 1023" using x by (intro expUp_top) simp_all
  have qx: "quantum \<bar>x\<bar> = q" using x1 by (simp only: quantum_def e q_def abs_of_pos if_True)
  from assms p have "2 ^ 53 \<le> x / q" by (simp add: pos_le_divide_eq)
  then have "(2::int) ^ 53 \<le> \<lfloor>x / q\<rfloor>" by (simp add: le_floor_iff)
  with roundEven_ge_floor [of "x / q"] have "(2::int) ^ 53 \<le> roundEven (x / q)" by linarith
  then have "(2::real) ^ 53 \<le> real_of_int (roundEven (x / q))"
    by (metis of_int_le_iff of_int_numeral of_int_power)
  with p(2) have "2 ^ 53 * q \<le> real_of_int (roundEven (x / q)) * q"
    by (intro mult_right_mono) simp_all
  with p(1) have r: "2 ^ 1024 \<le> real_of_int (roundEven (\<bar>x\<bar> / q)) * q"
    using x1 by (simp only: abs_of_pos)
  from x1 have "x \<noteq> 0" by simp
  with r x1 show ?thesis by (simp only: round64_def qx Let_def if_True if_False)
qed

lemma round64_minus: "round64 (- x) = jsNeg (round64 x)"
  by (simp add: round64_def Let_def)

section \<open>The price locator\<close>

declare findPriceLoop.simps [simp del]

lemma toISODate_minus: "toISODate (t - int i * DAY) = toISODate t - int i"
proof -
  have "(t + (- int i) * DAY) div DAY = (- int i) + t div DAY"
    by (rule div_mult_self1) (simp add: DAY_def)
  then show ?thesis by (simp add: toISODate_def)
qed

lemma find_split:
  assumes "List.find P xs = Some x"
  shows "\<exists>pre post. xs = pre @ x # post \<and> (\<forall>q\<in>set pre. \<not> P q) \<and> P x"
  using assms
proof (induction xs)
  case Nil
  then show ?case by simp
next
  case (Cons a xs)
  show ?case
  proof (cases "P a")
    case True
    with Cons.prems have "x = a" by simp
    with True have "a # xs = [] @ x # xs \<and> (\<forall>q\<in>set []. \<not> P q) \<and> P x" by simp
    then show ?thesis by blast
  next
    case False
    with Cons.prems have "List.find P xs = Some x" by simp
    from Cons.IH [OF this] obtain pre post where
      "xs = pre @ x # post" "\<forall>q\<in>set pre. \<not> P q" "P x" by blast
    with False have "a # xs = (a # pre) @ x # post \<and> (\<forall>q\<in>set (a # pre). \<not> P q) \<and> P x"
      by simp
    then show ?thesis by blast
  qed
qed

lemma findPriceLoop_None:
  "findPriceLoop pf ps t i = None \<longleftrightarrow>
     (\<forall>j. i \<le> j \<and> j < 5 \<longrightarrow> (\<forall>p\<in>set ps. date p \<noteq> toISODate t - int j))"
proof (induction pf ps t i rule: findPriceLoop.induct)
  case (1 pf ps t i)
  show ?case
  proof (cases "i < 5")
    case False
    then have "findPriceLoop pf ps t i = None"
      by (subst findPriceLoop.simps) simp
    moreover have "\<not> (i \<le> j \<and> j < 5)" for j using False by arith
    ultimately show ?thesis by blast
  next
    case True
    show ?thesis
    proof (cases "List.find (\<lambda>d. date d = toISODate (t - int i * DAY)) ps")
      case None
      then have here: "\<forall>p\<in>set ps. date p \<noteq> toISODate t - int i"
        by (simp add: find_None_iff toISODate_minus)
      from None True have "findPriceLoop pf ps t i = findPriceLoop pf ps t (i + 1)"
        by (subst findPriceLoop.simps) simp
      also have "\<dots> = None \<longleftrightarrow>
          (\<forall>j. i + 1 \<le> j \<and> j < 5 \<longrightarrow> (\<forall>p\<in>set ps. date p \<noteq> toISODate t - int j))"
        using "1.IH" [OF True refl refl None] .
      also have "\<dots> \<longleftrightarrow> (\<forall>j. i \<le> j \<and> j < 5 \<longrightarrow> (\<forall>p\<in>set ps. date p \<noteq> toISODate t - int j))"
      proof -
        have "\<And>j. i \<le> j \<longleftrightarrow> j = i \<or> i + 1 \<le> j" by arith
        with here show ?thesis by metis
      qed
      finally show ?thesis .
    next
      case (Some m)
      then have "m \<in> set ps" "date m = toISODate t - int i"
        by (auto simp: find_Some_iff toISODate_minus)
      moreover from Some True have "findPriceLoop pf ps t i \<noteq> None"
        by (subst findPriceLoop.simps) simp
      ultimately show ?thesis using True by auto
    qed
  qed
qed

lemma findPriceLoop_Some:
  "findPriceLoop pf ps t i = Some v \<Longrightarrow>
     \<exists>j pre p post. i \<le> j \<and> j < 5 \<and> ps = pre @ p # post \<and>
        (\<forall>q\<in>set pre. date q \<noteq> date p) \<and> date p = toISODate t - int j \<and>
        v = pf (close p) \<and>
        (\<forall>k. i \<le> k \<and> k < j \<longrightarrow> (\<forall>q\<in>set ps. date q \<noteq> toISODate t - int k))"
proof (induction pf ps t i rule: findPriceLoop.induct)
  case (1 pf ps t i)
  from "1.prems" have lt: "i < 5"
    by (subst (asm) findPriceLoop.simps) (simp split: if_splits)
  show ?case
  proof (cases "List.find (\<lambda>d. date d = toISODate (t - int i * DAY)) ps")
    case None
    then have here: "\<forall>p\<in>set ps. date p \<noteq> toISODate t - int i"
      by (simp add: find_None_iff toISODate_minus)
    from None lt "1.prems" have "findPriceLoop pf ps t (i + 1) = Some v"
      by (subst (asm) findPriceLoop.simps) simp
    from "1.IH" [OF lt refl refl None this] obtain j pre p post where
      j: "i + 1 \<le> j" "j < 5" "ps = pre @ p # post" "\<forall>q\<in>set pre. date q \<noteq> date p"
         "date p = toISODate t - int j" "v = pf (close p)"
         "\<forall>k. i + 1 \<le> k \<and> k < j \<longrightarrow> (\<forall>q\<in>set ps. date q \<noteq> toISODate t - int k)"
      by blast
    have "\<forall>k. i \<le> k \<and> k < j \<longrightarrow> (\<forall>q\<in>set ps. date q \<noteq> toISODate t - int k)"
    proof (intro allI impI)
      fix k assume "i \<le> k \<and> k < j"
      then have "k = i \<or> (i + 1 \<le> k \<and> k < j)" by arith
      with here j(7) show "\<forall>q\<in>set ps. date q \<noteq> toISODate t - int k" by blast
    qed
    moreover from j(1) have "i \<le> j" by simp
    ultimately show ?thesis using j(2-6) by blast
  next
    case (Some m)
    with lt "1.prems" have v: "v = pf (close m)"
      by (subst (asm) findPriceLoop.simps) simp
    from find_split [OF Some] obtain pre post where
      sp: "ps = pre @ m # post" "\<forall>q\<in>set pre. date q \<noteq> toISODate (t - int i * DAY)"
          "date m = toISODate (t - int i * DAY)" by blast
    then have "\<forall>q\<in>set pre. date q \<noteq> date m" "date m = toISODate t - int i"
      by (simp_all add: toISODate_minus)
    moreover have "\<not> (i \<le> k \<and> k < i)" for k by arith
    ultimately show ?thesis using lt v sp(1)
      by - (rule exI [of _ i], rule exI [of _ pre], rule exI [of _ m], rule exI [of _ post],
            blast)
  qed
qed


lemma window_offset:
  "(\<exists>p\<in>set ps. D - 4 \<le> date p \<and> date p \<le> D) \<longleftrightarrow>
   (\<exists>j<5. \<exists>p\<in>set ps. date p = D - int j)"
proof
  assume "\<exists>p\<in>set ps. D - 4 \<le> date p \<and> date p \<le> D"
  then obtain p where p: "p \<in> set ps" "D - 4 \<le> date p" "date p \<le> D" by blast
  then have "nat (D - date p) < 5" "date p = D - int (nat (D - date p))" by simp_all
  with p(1) show "\<exists>j<5. \<exists>p\<in>set ps. date p = D - int j" by blast
next
  assume "\<exists>j<5. \<exists>p\<in>set ps. date p = D - int j"
  then obtain j p where "j < 5" "p \<in> set ps" "date p = D - int j" by blast
  then have "p \<in> set ps \<and> D - 4 \<le> date p \<and> date p \<le> D" by simp
  then show "\<exists>p\<in>set ps. D - 4 \<le> date p \<and> date p \<le> D" by blast
qed

lemma findPriceOnDate_None:
  "findPriceOnDate pf ps t = None \<longleftrightarrow>
     \<not> (\<exists>p\<in>set ps. toISODate t - 4 \<le> date p \<and> date p \<le> toISODate t)"
  unfolding findPriceOnDate_def findPriceLoop_None window_offset by auto

lemma findPriceOnDate_Some:
  assumes "findPriceOnDate pf ps t = Some v"
  shows "\<exists>pre p post. ps = pre @ p # post \<and> (\<forall>q\<in>set pre. date q \<noteq> date p) \<and>
           v = pf (close p) \<and> toISODate t - 4 \<le> date p \<and> date p \<le> toISODate t \<and>
           (\<forall>q\<in>set ps. date q \<le> toISODate t \<longrightarrow> date q \<le> date p)"
proof -
  from assms have "findPriceLoop pf ps t 0 = Some v" by (simp add: findPriceOnDate_def)
  from findPriceLoop_Some [OF this] obtain j pre p post where
    j: "j < 5" "ps = pre @ p # post" "\<forall>q\<in>set pre. date q \<noteq> date p"
       "date p = toISODate t - int j" "v = pf (close p)"
       "\<forall>k. k < j \<longrightarrow> (\<forall>q\<in>set ps. date q \<noteq> toISODate t - int k)"
    by auto
  have recent: "\<forall>q\<in>set ps. date q \<le> toISODate t \<longrightarrow> date q \<le> date p"
  proof (intro ballI impI)
    fix q assume q: "q \<in> set ps" "date q \<le> toISODate t"
    show "date q \<le> date p"
    proof (rule ccontr)
      assume "\<not> date q \<le> date p"
      with q(2) j(4) have "nat (toISODate t - date q) < j"
        "date q = toISODate t - int (nat (toISODate t - date q))" by simp_all
      with j(6) q(1) show False by blast
    qed
  qed
  from j(1,4) have "toISODate t - 4 \<le> date p \<and> date p \<le> toISODate t" by simp
  with j(2,3,5) recent show ?thesis by blast
qed

text \<open>
  C3. \<open>findPriceOnDate\<close> returns a value (is not \<open>null\<close>) exactly when the series has
  a point dated in the five days ending at the day of the target; the value is then the
  parsed \<open>close\<close> of a point with the most recent such date. Otherwise it is \<open>null\<close>.
\<close>

theorem findPriceOnDate_window:
  "(findPriceOnDate pf ps t \<noteq> None \<longleftrightarrow>
      (\<exists>p\<in>set ps. toISODate t - 4 \<le> date p \<and> date p \<le> toISODate t)) \<and>
   (\<forall>v. findPriceOnDate pf ps t = Some v \<longrightarrow>
      (\<exists>p\<in>set ps. v = pf (close p) \<and>
         toISODate t - 4 \<le> date p \<and> date p \<le> toISODate t \<and>
         (\<forall>q\<in>set ps. date q \<le> toISODate t \<longrightarrow> date q \<le> date p)))"
proof (intro conjI allI impI)
  show "findPriceOnDate pf ps t \<noteq> None \<longleftrightarrow>
      (\<exists>p\<in>set ps. toISODate t - 4 \<le> date p \<and> date p \<le> toISODate t)"
    by (simp add: findPriceOnDate_None)
next
  fix v assume "findPriceOnDate pf ps t = Some v"
  from findPriceOnDate_Some [OF this] obtain pre p post where
    "ps = pre @ p # post" "v = pf (close p)"
    "toISODate t - 4 \<le> date p" "date p \<le> toISODate t"
    "\<forall>q\<in>set ps. date q \<le> toISODate t \<longrightarrow> date q \<le> date p" by blast
  moreover from this(1) have "p \<in> set ps" by simp
  ultimately show "\<exists>p\<in>set ps. v = pf (close p) \<and>
         toISODate t - 4 \<le> date p \<and> date p \<le> toISODate t \<and>
         (\<forall>q\<in>set ps. date q \<le> toISODate t \<longrightarrow> date q \<le> date p)" by blast
qed

theorem findPriceOnDate_window_witness:
  "findPriceOnDate Number
     [\<lparr>date = 19724, close = 100\<rparr>, \<lparr>date = 19725, close = 110\<rparr>] (newDate 19728)
     = Some (Number 110) \<and>
   (\<exists>p\<in>set [\<lparr>date = 19724, close = 100::real\<rparr>, \<lparr>date = 19725, close = 110\<rparr>].
      toISODate (newDate 19728) - 4 \<le> date p \<and> date p \<le> toISODate (newDate 19728))"
  using findPriceOnDate_window
    [of Number "[\<lparr>date = 19724, close = 100\<rparr>, \<lparr>date = 19725, close = 110\<rparr>]"
        "newDate 19728"]
  by (simp add: findPriceOnDate_def findPriceLoop.simps toISODate_def newDate_def DAY_def)

text \<open>
  C10. Nothing in \<open>findPriceOnDate\<close> needs the dates of the series to be distinct. For
  any series with a point in the five-day window it returns the parsed \<open>close\<close> of the
  first point, in series order, that carries the most recent date of the window: points
  after it with the same date are not looked at, and the function has no error branch.
\<close>

theorem findPriceOnDate_first_duplicate:
  assumes "\<exists>p\<in>set ps. toISODate t - 4 \<le> date p \<and> date p \<le> toISODate t"
  shows "\<exists>pre p post. ps = pre @ p # post \<and> (\<forall>q\<in>set pre. date q \<noteq> date p) \<and>
           findPriceOnDate pf ps t = Some (pf (close p)) \<and>
           toISODate t - 4 \<le> date p \<and> date p \<le> toISODate t \<and>
           (\<forall>q\<in>set ps. date q \<le> toISODate t \<longrightarrow> date q \<le> date p)"
proof -
  from assms have "findPriceOnDate pf ps t \<noteq> None" by (simp add: findPriceOnDate_None)
  then obtain v where v: "findPriceOnDate pf ps t = Some v" by blast
  from findPriceOnDate_Some [OF v] v show ?thesis by blast
qed

theorem findPriceOnDate_first_duplicate_witness:
  "(\<exists>p\<in>set [\<lparr>date = 19725, close = 110::real\<rparr>, \<lparr>date = 19725, close = 95\<rparr>].
      toISODate (newDate 19728) - 4 \<le> date p \<and> date p \<le> toISODate (newDate 19728)) \<and>
   findPriceOnDate Number
     [\<lparr>date = 19725, close = 110\<rparr>, \<lparr>date = 19725, close = 95\<rparr>] (newDate 19728)
     = Some (Number 110)"
  using findPriceOnDate_first_duplicate
    [of "[\<lparr>date = 19725, close = 110\<rparr>, \<lparr>date = 19725, close = 95\<rparr>]"
        "newDate 19728" Number]
  by (simp add: findPriceOnDate_def findPriceLoop.simps toISODate_def newDate_def DAY_def)

section \<open>The estimator\<close>

lemmas eval_defs = example_world_def example_prices_def processSymbol_def tryBlock_def
  findPriceOnDate_def findPriceLoop.simps toISODate_def newDate_def DAY_def percentMove_def
  average_def fixed2_def jsSub_def round64_def quantum_def roundEven_def expUp.simps
  expDown.simps redisKey_def TTL_def Let_def

lemma tryBlock_cases:
  "tryBlock pf w store symb = (Inl FetchError, store) \<or>
   tryBlock pf w store symb = (Inl RedisError, store) \<or>
   tryBlock pf w store symb = (Inr None, store) \<or>
   (\<exists>earnings priceData e rest.
      calendar w = Body (Some earnings) \<and> earnings \<noteq> [] \<and>
      prices w = Body (PriceArray priceData) \<and> 10 \<le> length priceData \<and>
      movesLoop pf priceData earnings [] \<noteq> [] \<and>
      filter (\<lambda>e. newDate (date e) > today w) earnings = e # rest \<and>
      redisSetOk w \<and>
      tryBlock pf w store symb =
        (Inr (Some \<lparr>symbol = symb, nextDate = date e,
                    avgMove = toFixed2 (average (movesLoop pf priceData earnings [])),
                    lastUpdated = stamp w\<rparr>),
         store(redisKey symb \<mapsto>
           (\<lparr>symbol = symb, nextDate = date e,
             avgMove = toFixed2 (average (movesLoop pf priceData earnings [])),
             lastUpdated = stamp w\<rparr>, TTL))))"
  by (simp add: tryBlock_def Let_def
      split: fetched.splits option.splits price_data.splits list.splits)

lemma processSymbol_cases:
  "processSymbol pf w store symb = (None, store) \<or>
   (\<exists>earnings priceData e rest.
      calendar w = Body (Some earnings) \<and> earnings \<noteq> [] \<and>
      prices w = Body (PriceArray priceData) \<and> 10 \<le> length priceData \<and>
      movesLoop pf priceData earnings [] \<noteq> [] \<and>
      filter (\<lambda>e. newDate (date e) > today w) earnings = e # rest \<and>
      redisSetOk w \<and>
      processSymbol pf w store symb =
        (Some \<lparr>symbol = symb, nextDate = date e,
               avgMove = toFixed2 (average (movesLoop pf priceData earnings [])),
               lastUpdated = stamp w\<rparr>,
         store(redisKey symb \<mapsto>
           (\<lparr>symbol = symb, nextDate = date e,
             avgMove = toFixed2 (average (movesLoop pf priceData earnings [])),
             lastUpdated = stamp w\<rparr>, TTL))))"
  using tryBlock_cases [of pf w store symb]
  by (auto simp: processSymbol_def)

lemma filter_Cons_split:
  assumes "filter P xs = e # rest"
  shows "\<exists>pre post. xs = pre @ e # post \<and> (\<forall>x\<in>set pre. \<not> P x) \<and> P e"
  using assms
proof (induction xs)
  case Nil
  then show ?case by simp
next
  case (Cons a xs)
  show ?case
  proof (cases "P a")
    case True
    with Cons.prems have "a = e" by simp
    with True have "a # xs = [] @ e # xs \<and> (\<forall>x\<in>set []. \<not> P x) \<and> P e" by simp
    then show ?thesis by blast
  next
    case False
    with Cons.prems have "filter P xs = e # rest" by simp
    from Cons.IH [OF this] obtain pre post where
      "xs = pre @ e # post" "\<forall>x\<in>set pre. \<not> P x" "P e" by blast
    with False have "a # xs = (a # pre) @ e # post \<and> (\<forall>x\<in>set (a # pre). \<not> P x) \<and> P e"
      by simp
    then show ?thesis by blast
  qed
qed

lemma toISODate_less: "t < newDate d \<Longrightarrow> toISODate t < d"
proof -
  assume "t < newDate d"
  then have lt: "t < d * DAY" by (simp add: newDate_def)
  have pos: "0 < DAY" by (simp add: DAY_def)
  have "DAY * (t div DAY) + t mod DAY = t" by (rule mult_div_mod_eq)
  moreover from pos have "0 \<le> t mod DAY" by (rule pos_mod_sign)
  ultimately have "DAY * (t div DAY) \<le> t" by linarith
  with lt have "(t div DAY) * DAY < d * DAY" by (simp add: mult.commute)
  with pos have "t div DAY < d" by (simp only: mult_less_cancel_right)
  then show ?thesis by (simp add: toISODate_def)
qed

text \<open>
  Step 4 takes \<open>futureEarnings[0]\<close>: the \<open>nextDate\<close> of a summary is the \<open>date\<close> of the
  first event, in the order of the response, that lies strictly after \<open>today\<close>. That is
  the earliest future date only when the events come in chronological order. When no
  event lies strictly after \<open>today\<close>, the symbol gets no summary and nothing is stored.
\<close>

lemma processSymbol_first_future:
  "calendar w = Body (Some earnings) \<Longrightarrow>
   (\<forall>r. fst (processSymbol pf w store symb) = Some r \<longrightarrow>
      (\<exists>pre e post. earnings = pre @ e # post \<and>
         (\<forall>x\<in>set pre. \<not> today w < newDate (date x)) \<and>
         today w < newDate (date e) \<and> nextDate r = date e) \<and>
      (sorted (map date earnings) \<longrightarrow>
         (\<forall>x\<in>set earnings. today w < newDate (date x) \<longrightarrow> nextDate r \<le> date x))) \<and>
   ((\<forall>x\<in>set earnings. \<not> today w < newDate (date x)) \<longrightarrow>
      processSymbol pf w store symb = (None, store))"
proof (intro conjI allI impI)
  fix r
  assume cal: "calendar w = Body (Some earnings)"
    and r: "fst (processSymbol pf w store symb) = Some r"
  from processSymbol_cases [of pf w store symb] r cal obtain e rest where
    f: "filter (\<lambda>e. newDate (date e) > today w) earnings = e # rest" and n: "nextDate r = date e"
    by auto
  from filter_Cons_split [OF f] obtain pre post where
    sp: "earnings = pre @ e # post" "\<forall>x\<in>set pre. \<not> today w < newDate (date x)"
        "today w < newDate (date e)" by blast
  with n show "\<exists>pre e post. earnings = pre @ e # post \<and>
         (\<forall>x\<in>set pre. \<not> today w < newDate (date x)) \<and>
         today w < newDate (date e) \<and> nextDate r = date e" by blast
  assume "sorted (map date earnings)"
  with sp(1) have le: "\<forall>x\<in>set post. date e \<le> date x"
    by (simp add: sorted_append)
  show "\<forall>x\<in>set earnings. today w < newDate (date x) \<longrightarrow> nextDate r \<le> date x"
  proof (intro ballI impI)
    fix x assume "x \<in> set earnings" "today w < newDate (date x)"
    with sp(1,2) have "x = e \<or> x \<in> set post" by auto
    with le n show "nextDate r \<le> date x" by auto
  qed
next
  assume cal: "calendar w = Body (Some earnings)"
    and none: "\<forall>x\<in>set earnings. \<not> today w < newDate (date x)"
  then have "filter (\<lambda>e. newDate (date e) > today w) earnings = []" by simp
  with processSymbol_cases [of pf w store symb] cal
  show "processSymbol pf w store symb = (None, store)" by auto
qed

text \<open>
  C1. The next-earnings date of a summary is to be the earliest announcement date
  strictly after \<open>today\<close> among all events. Step 4 does not sort the events: with the
  events 2023-06-01 (day 19509), 2025-01-01 (day 20089) and 2024-12-01 (day 20058) in
  this order and \<open>today\<close> at noon of 2024-06-01, the summary carries day 20089 although
  day 20058 is a future date and earlier.
\<close>

theorem processSymbol_nextDate_unsorted:
  "map_option nextDate
     (fst (processSymbol Number
        (example_world [\<lparr>date = 19509\<rparr>, \<lparr>date = 20089\<rparr>, \<lparr>date = 20058\<rparr>])
        Map.empty ''AAPL'')) = Some 20089 \<and>
   today (example_world [\<lparr>date = 19509\<rparr>, \<lparr>date = 20089\<rparr>, \<lparr>date = 20058\<rparr>])
     < newDate 20058 \<and>
   (20058::int) < 20089"
  by (simp add: eval_defs)

lemma movesLoop_append:
  "movesLoop pf ps es acc = acc @ movesLoop pf ps es []"
proof (induction es arbitrary: acc)
  case Nil
  then show ?case by simp
next
  case (Cons e es)
  have a: "movesLoop pf ps es (acc @ [m]) = acc @ movesLoop pf ps es [m]" for m
    using Cons.IH [of "acc @ [m]"] Cons.IH [of "[m]"] by simp
  show ?case
    by (simp add: Let_def a Cons.IH [of acc] split: option.splits)
qed

lemma movesLoop_concat:
  "movesLoop pf ps es [] = concat (map (\<lambda>e. movesLoop pf ps [e] []) es)"
proof (induction es)
  case Nil
  then show ?case by simp
next
  case (Cons e es)
  have "movesLoop pf ps (e # es) [] = movesLoop pf ps [e] [] @ movesLoop pf ps es []"
    using movesLoop_append [of pf ps es "[m]" for m]
    by (simp add: Let_def split: option.splits)
  with Cons.IH show ?case by simp
qed

lemma greater0_truthy: "greater0 b \<Longrightarrow> truthy b"
  by (cases b) auto

lemma greater0_iff: "greater0 b \<longleftrightarrow> (\<exists>x. b = Number x \<and> 0 < x) \<or> b = Infinity"
  by (cases b) auto

lemma truthy_iff: "truthy a \<longleftrightarrow> a \<noteq> NaN \<and> a \<noteq> Number 0"
  by (cases a) auto

lemma movesLoop_single:
  "movesLoop pf ps [e] [] =
     (case (findPriceOnDate pf ps (newDate (date e) - DAY),
            findPriceOnDate pf ps (newDate (date e) + DAY)) of
        (Some b, Some a) \<Rightarrow> if greater0 b \<and> truthy a then [percentMove b a] else []
      | _ \<Rightarrow> [])"
  using greater0_truthy
  by (auto simp: Let_def split: option.splits)

text \<open>
  C2, as amended. For an event dated \<open>d\<close> the loop adds an observation exactly when
  \<open>findPriceOnDate\<close> returns a value for \<open>d - 1\<close> day and for \<open>d + 1\<close> day, the
  before-price is strictly positive (a positive number or \<open>Infinity\<close>) and the after-price
  is neither \<open>0\<close> nor \<open>NaN\<close>. The observation is then
  \<open>Math.abs((after - before) / before) * 100\<close> as double arithmetic evaluates it, every
  operation rounded to the nearest double. Any other event adds nothing, and the loop has
  no error branch. The observations of a list of events are those of its events, in
  order.
\<close>

theorem movesLoop_observation:
  "(movesLoop pf ps [e] [] \<noteq> [] \<longleftrightarrow>
      (\<exists>b a. findPriceOnDate pf ps (newDate (date e) - DAY) = Some b \<and>
             findPriceOnDate pf ps (newDate (date e) + DAY) = Some a \<and>
             ((\<exists>x. b = Number x \<and> 0 < x) \<or> b = Infinity) \<and>
             a \<noteq> NaN \<and> a \<noteq> Number 0)) \<and>
   (\<forall>b a. findPriceOnDate pf ps (newDate (date e) - DAY) = Some b \<and>
          findPriceOnDate pf ps (newDate (date e) + DAY) = Some a \<and>
          ((\<exists>x. b = Number x \<and> 0 < x) \<or> b = Infinity) \<and>
          a \<noteq> NaN \<and> a \<noteq> Number 0 \<longrightarrow>
          movesLoop pf ps [e] [] = [jsMul (jsAbs (jsDiv (jsSub a b) b)) (Number 100)]) \<and>
   movesLoop pf ps es [] = concat (map (\<lambda>e. movesLoop pf ps [e] []) es)"
proof (intro conjI)
  show "movesLoop pf ps es [] = concat (map (\<lambda>e. movesLoop pf ps [e] []) es)"
    by (rule movesLoop_concat)
qed (auto simp: movesLoop_single greater0_iff truthy_iff percentMove_def
      simp del: movesLoop.simps split: option.splits)

text \<open>
  C2 as stated fails: with a close of 100 on the day before and a close of 0 on the day
  after, both prices are found and the before-price is positive, yet no observation is
  added, because \<open>afterPrice\<close> is tested for truthiness.
\<close>

theorem movesLoop_observation_counterexample:
  "findPriceOnDate Number [\<lparr>date = 19753, close = 100\<rparr>, \<lparr>date = 19755, close = 0\<rparr>]
     (newDate 19754 - DAY) = Some (Number 100) \<and>
   findPriceOnDate Number [\<lparr>date = 19753, close = 100\<rparr>, \<lparr>date = 19755, close = 0\<rparr>]
     (newDate 19754 + DAY) = Some (Number 0) \<and>
   (0::real) < 100 \<and>
   movesLoop Number [\<lparr>date = 19753, close = 100\<rparr>, \<lparr>date = 19755, close = 0\<rparr>]
     [\<lparr>date = 19754\<rparr>] [] = []"
  by (simp add: eval_defs)

theorem movesLoop_observation_witness:
  "findPriceOnDate Number [\<lparr>date = 19753, close = 100\<rparr>, \<lparr>date = 19755, close = 110\<rparr>]
     (newDate 19754 - DAY) = Some (Number 100) \<and>
   findPriceOnDate Number [\<lparr>date = 19753, close = 100\<rparr>, \<lparr>date = 19755, close = 110\<rparr>]
     (newDate 19754 + DAY) = Some (Number 110) \<and>
   movesLoop Number [\<lparr>date = 19753, close = 100\<rparr>, \<lparr>date = 19755, close = 110\<rparr>]
     [\<lparr>date = 19754\<rparr>] [] = [Number 10]"
  using movesLoop_observation
    [of Number "[\<lparr>date = 19753, close = 100\<rparr>, \<lparr>date = 19755, close = 110\<rparr>]"
        "\<lparr>date = 19754\<rparr>" "[]"]
  by (simp add: eval_defs)

text \<open>
  Rounding shows in the observations: from 160 to 183 the exact move is 14.375, the
  double that the operations return is 14.374999999999998, and two decimals of it are
  14.37. A difference beyond the largest double overflows: from a before-price of at
  least \<open>2 ^ 1023\<close> to an after-price of at most \<open>- 2 ^ 1023\<close> the move is \<open>Infinity\<close>.
\<close>

lemma percentMove_rounds:
  "percentMove (Number 160) (Number 183) = Number (8092405580431359 / 562949953421312) \<and>
   (8092405580431359 / 562949953421312) < (14375 / 1000 :: real) \<and>
   toFixed2 (percentMove (Number 160) (Number 183)) = round64 (1437 / 100)"
  by (simp add: eval_defs)

lemma percentMove_overflows:
  assumes "2 ^ 1023 \<le> b" and "a \<le> - (2 ^ 1023)"
  shows "percentMove (Number b) (Number a) = Infinity"
proof -
  have "(2::real) ^ 1024 = 2 ^ 1023 + 2 ^ 1023" by simp
  with assms have "2 ^ 1024 \<le> b - a" by linarith
  then have "round64 (b - a) = Infinity" by (rule round64_overflows)
  with round64_minus [of "b - a"] have s: "jsSub (Number a) (Number b) = MinusInfinity"
    by (simp add: jsSub_def)
  have "(0::real) \<le> 2 ^ 1023" by simp
  with assms(1) have "0 \<le> b" by linarith
  with s show ?thesis by (simp add: percentMove_def)
qed

text \<open>
  Rounding shows in the mean too: the doubles nearest 0.01 and 0.02 have a sum that
  rounds down, the computed mean is the double 0.01499999999999999944, and two decimals
  of it are 0.01.
\<close>

lemma average_rounds:
  "average [round64 (1 / 100), round64 (2 / 100)] =
     Number (1080863910568919 / 72057594037927936) \<and>
   toFixed2 (average [round64 (1 / 100), round64 (2 / 100)]) = round64 (1 / 100)"
  by (simp add: eval_defs)

lemma fixed2_round:
  "(\<exists>n::int. fixed2 x = real_of_int n / 100) \<and>
   \<bar>fixed2 x - x\<bar> \<le> 1 / 200 \<and>
   (\<bar>fixed2 x - x\<bar> = 1 / 200 \<longrightarrow> \<bar>x\<bar> < \<bar>fixed2 x\<bar>)"
proof (cases "x < 0")
  case False
  define n where "n = \<lfloor>x * 100 + 1 / 2\<rfloor>"
  have r: "fixed2 x = real_of_int n / 100" using False by (simp add: fixed2_def n_def)
  have "real_of_int n \<le> x * 100 + 1 / 2" "x * 100 + 1 / 2 < real_of_int n + 1"
    unfolding n_def by linarith+
  with False r show ?thesis by (auto simp: abs_if)
next
  case True
  define n where "n = \<lfloor>(- x) * 100 + 1 / 2\<rfloor>"
  have r: "fixed2 x = real_of_int (- n) / 100" using True by (simp add: fixed2_def n_def)
  have "real_of_int n \<le> (- x) * 100 + 1 / 2" "(- x) * 100 + 1 / 2 < real_of_int n + 1"
    unfolding n_def by linarith+
  moreover have "0 \<le> n" unfolding n_def using True by simp
  moreover from r have "\<exists>m::int. fixed2 x = real_of_int m / 100" by blast
  ultimately show ?thesis using True r by (auto simp: abs_if)
qed

text \<open>
  C4, as amended. The \<open>avgMove\<close> of a summary is \<open>parseFloat(avgMove.toFixed(2))\<close> of the
  mean as the code computes it: the observations, never empty, added from 0 in list
  order and the sum divided by their number, in double arithmetic. For a finite computed
  mean \<open>m\<close> below \<open>10 ^ 21\<close> in magnitude it is the double nearest to the multiple of 0.01
  that is nearest to \<open>m\<close>, the one further from zero of two: \<open>m\<close> rounded to 2 decimals,
  half away from zero. Any other computed mean is returned as it is. Observations 5, 10,
  15 give exactly 10.
\<close>

theorem processSymbol_avgMove:
  "(\<forall>r store' earnings priceData.
      processSymbol pf w store symb = (Some r, store') \<and>
      calendar w = Body (Some earnings) \<and> prices w = Body (PriceArray priceData) \<longrightarrow>
      movesLoop pf priceData earnings [] \<noteq> [] \<and>
      avgMove r = toFixed2 (average (movesLoop pf priceData earnings []))) \<and>
   (\<forall>obs. average obs = jsDiv (foldl jsAdd (Number 0) obs) (Number (real (length obs)))) \<and>
   (\<forall>obs m. average obs = Number m \<and> \<bar>m\<bar> < 10 ^ 21 \<longrightarrow>
      (\<exists>n::int. toFixed2 (average obs) = round64 (real_of_int n / 100) \<and>
         \<bar>real_of_int n / 100 - m\<bar> \<le> 1 / 200 \<and>
         (\<bar>real_of_int n / 100 - m\<bar> = 1 / 200 \<longrightarrow> \<bar>m\<bar> < \<bar>real_of_int n / 100\<bar>))) \<and>
   (\<forall>obs. (\<forall>m. average obs = Number m \<longrightarrow> 10 ^ 21 \<le> \<bar>m\<bar>) \<longrightarrow>
      toFixed2 (average obs) = average obs) \<and>
   toFixed2 (average [Number 5, Number 10, Number 15]) = Number 10"
proof (intro conjI allI impI)
  fix r store' earnings priceData
  assume a: "processSymbol pf w store symb = (Some r, store') \<and>
      calendar w = Body (Some earnings) \<and> prices w = Body (PriceArray priceData)"
  with processSymbol_cases [of pf w store symb]
  show "movesLoop pf priceData earnings [] \<noteq> []"
    and "avgMove r = toFixed2 (average (movesLoop pf priceData earnings []))"
    by auto
next
  fix obs
  show "average obs = jsDiv (foldl jsAdd (Number 0) obs) (Number (real (length obs)))"
    by (simp add: average_def)
next
  fix obs m
  assume a: "average obs = Number m \<and> \<bar>m\<bar> < 10 ^ 21"
  from fixed2_round [of m] obtain n :: int where
    n: "fixed2 m = real_of_int n / 100" by blast
  from a have "toFixed2 (average obs) = round64 (fixed2 m)" by simp
  then have t: "toFixed2 (average obs) = round64 (real_of_int n / 100)"
    by (simp only: n)
  from fixed2_round [of m]
  have "\<bar>real_of_int n / 100 - m\<bar> \<le> 1 / 200 \<and>
         (\<bar>real_of_int n / 100 - m\<bar> = 1 / 200 \<longrightarrow> \<bar>m\<bar> < \<bar>real_of_int n / 100\<bar>)"
    unfolding n by blast
  with t
  have "toFixed2 (average obs) = round64 (real_of_int n / 100) \<and>
         \<bar>real_of_int n / 100 - m\<bar> \<le> 1 / 200 \<and>
         (\<bar>real_of_int n / 100 - m\<bar> = 1 / 200 \<longrightarrow> \<bar>m\<bar> < \<bar>real_of_int n / 100\<bar>)"
    by (rule conjI)
  then show "\<exists>n::int. toFixed2 (average obs) = round64 (real_of_int n / 100) \<and>
         \<bar>real_of_int n / 100 - m\<bar> \<le> 1 / 200 \<and>
         (\<bar>real_of_int n / 100 - m\<bar> = 1 / 200 \<longrightarrow> \<bar>m\<bar> < \<bar>real_of_int n / 100\<bar>)"
    by (rule exI)
next
  fix obs
  assume "\<forall>m. average obs = Number m \<longrightarrow> 10 ^ 21 \<le> \<bar>m\<bar>"
  then show "toFixed2 (average obs) = average obs"
    by (cases "average obs") simp_all
next
  show "toFixed2 (average [Number 5, Number 10, Number 15]) = Number 10"
    by (simp add: eval_defs)
qed

text \<open>
  C4 as stated fails. The moves from 80 to 103 and from 100 to 105 give the observations
  28.749999999999996 and 5, whose arithmetic mean is 16.874999999999998: 16.87 when
  rounded to 2 decimals. The code's sum rounds to 33.75, its mean is 16.875, and the
  summary carries 16.88.
\<close>

theorem processSymbol_avgMove_counterexample:
  "movesLoop Number example_prices [\<lparr>date = 19300\<rparr>, \<lparr>date = 19400\<rparr>, \<lparr>date = 20058\<rparr>] []
     = [Number (8092405580431359 / 281474976710656), Number 5] \<and>
   map_option avgMove
     (fst (processSymbol Number
        (example_world [\<lparr>date = 19300\<rparr>, \<lparr>date = 19400\<rparr>, \<lparr>date = 20058\<rparr>])
        Map.empty ''AAPL'')) = Some (round64 (1688 / 100)) \<and>
   \<bar>1687 / 100 - (8092405580431359 / 281474976710656 + 5) / 2\<bar> < (1 / 200 :: real) \<and>
   (1 / 200 :: real) < \<bar>1688 / 100 - (8092405580431359 / 281474976710656 + 5) / 2\<bar> \<and>
   round64 (1688 / 100) \<noteq> round64 (1687 / 100)"
  by (simp add: eval_defs)

theorem processSymbol_avgMove_witness:
  "processSymbol Number
     (example_world [\<lparr>date = 19400\<rparr>, \<lparr>date = 19450\<rparr>, \<lparr>date = 19509\<rparr>, \<lparr>date = 20058\<rparr>])
     Map.empty ''AAPL'' =
     (Some \<lparr>symbol = ''AAPL'', nextDate = 20058, avgMove = Number 10,
            lastUpdated = 1717243200500\<rparr>,
      [''earnings:AAPL'' \<mapsto>
        (\<lparr>symbol = ''AAPL'', nextDate = 20058, avgMove = Number 10,
          lastUpdated = 1717243200500\<rparr>, 2592000)]) \<and>
   movesLoop Number example_prices
     [\<lparr>date = 19400\<rparr>, \<lparr>date = 19450\<rparr>, \<lparr>date = 19509\<rparr>, \<lparr>date = 20058\<rparr>] []
     = [Number 5, Number 10, Number 15] \<and>
   average [Number 5, Number 10, Number 15] = Number 10 \<and>
   toFixed2 (average [Number 5, Number 10, Number 15]) = Number 10"
  using processSymbol_avgMove
    [of Number
        "example_world [\<lparr>date = 19400\<rparr>, \<lparr>date = 19450\<rparr>, \<lparr>date = 19509\<rparr>, \<lparr>date = 20058\<rparr>]"
        Map.empty "''AAPL''"]
  by (simp add: eval_defs)

text \<open>
  C7. With no earnings events (a 404, no \<open>earnings\<close> field, or an empty array)
  \<open>processSymbol\<close> returns \<open>null\<close> by a plain \<open>return\<close>, whatever the price
  response is; so it does with a price array of fewer than 10 points, whatever the events
  are. No error is thrown and nothing is stored in either case.
\<close>

theorem processSymbol_skips:
  "((calendar w = NotFound \<or> calendar w = Body None \<or> calendar w = Body (Some [])) \<longrightarrow>
      tryBlock pf w store symb = (Inr None, store) \<and>
      processSymbol pf w store symb = (None, store)) \<and>
   (\<forall>earnings priceData.
      calendar w = Body (Some earnings) \<and> prices w = Body (PriceArray priceData) \<and>
      length priceData < 10 \<longrightarrow>
      tryBlock pf w store symb = (Inr None, store) \<and>
      processSymbol pf w store symb = (None, store))"
  by (auto simp: processSymbol_def tryBlock_def)

theorem processSymbol_skips_witness:
  "calendar (example_world []) = Body (Some []) \<and>
   processSymbol Number (example_world []) Map.empty ''AAPL'' = (None, Map.empty) \<and>
   length (take 9 example_prices) = 9 \<and>
   tryBlock Number
     ((example_world [\<lparr>date = 19509\<rparr>, \<lparr>date = 20058\<rparr>])
        \<lparr>prices := Body (PriceArray (take 9 example_prices))\<rparr>)
     Map.empty ''AAPL'' = (Inr None, Map.empty)"
  using processSymbol_skips [of "example_world []" Number Map.empty "''AAPL''"]
    processSymbol_skips
      [of "(example_world [\<lparr>date = 19509\<rparr>, \<lparr>date = 20058\<rparr>])
             \<lparr>prices := Body (PriceArray (take 9 example_prices))\<rparr>"
          Number Map.empty "''AAPL''"]
  by (simp add: example_world_def example_prices_def)

text \<open>
  C8. \<open>processSymbol\<close> either returns \<open>null\<close> and leaves the store as it was, or it
  stores the summary it returns; a stored summary comes from a non-empty list of
  observations and its \<open>nextDate\<close> is strictly later than \<open>today\<close>, as an instant and as
  a calendar day.
\<close>

theorem processSymbol_invariant:
  "processSymbol pf w store symb = (res, store') \<Longrightarrow>
     (res = None \<and> store' = store) \<or>
     (\<exists>r earnings priceData.
        res = Some r \<and> store' = store(redisKey symb \<mapsto> (r, TTL)) \<and>
        calendar w = Body (Some earnings) \<and> prices w = Body (PriceArray priceData) \<and>
        movesLoop pf priceData earnings [] \<noteq> [] \<and>
        today w < newDate (nextDate r) \<and> toISODate (today w) < nextDate r)"
proof -
  assume p: "processSymbol pf w store symb = (res, store')"
  from processSymbol_cases [of pf w store symb] show ?thesis
  proof (elim disjE exE conjE)
    assume "processSymbol pf w store symb = (None, store)"
    with p show ?thesis by simp
  next
    fix earnings priceData e rest
    assume a: "calendar w = Body (Some earnings)" "prices w = Body (PriceArray priceData)"
      "movesLoop pf priceData earnings [] \<noteq> []"
      "filter (\<lambda>e. newDate (date e) > today w) earnings = e # rest"
    assume "processSymbol pf w store symb =
        (Some \<lparr>symbol = symb, nextDate = date e,
               avgMove = toFixed2 (average (movesLoop pf priceData earnings [])),
               lastUpdated = stamp w\<rparr>,
         store(redisKey symb \<mapsto>
           (\<lparr>symbol = symb, nextDate = date e,
             avgMove = toFixed2 (average (movesLoop pf priceData earnings [])),
             lastUpdated = stamp w\<rparr>, TTL)))"
    with p obtain r where r: "res = Some r" "store' = store(redisKey symb \<mapsto> (r, TTL))"
      "nextDate r = date e" by auto
    from filter_Cons_split [OF a(4)] have "today w < newDate (date e)" by blast
    with r(3) have "today w < newDate (nextDate r)" "toISODate (today w) < nextDate r"
      by (simp_all add: toISODate_less)
    with r a show ?thesis by blast
  qed
qed

theorem processSymbol_invariant_witness:
  "processSymbol Number (example_world [\<lparr>date = 19509\<rparr>, \<lparr>date = 20058\<rparr>]) Map.empty ''AAPL''
     = (Some \<lparr>symbol = ''AAPL'', nextDate = 20058, avgMove = Number 15, lastUpdated = 1717243200500\<rparr>,
        [''earnings:AAPL'' \<mapsto>
          (\<lparr>symbol = ''AAPL'', nextDate = 20058, avgMove = Number 15, lastUpdated = 1717243200500\<rparr>,
           2592000)]) \<and>
   toISODate (today (example_world [\<lparr>date = 19509\<rparr>, \<lparr>date = 20058\<rparr>])) < 20058"
  using processSymbol_invariant
    [of Number "example_world [\<lparr>date = 19509\<rparr>, \<lparr>date = 20058\<rparr>]" Map.empty "''AAPL''"
        "Some \<lparr>symbol = ''AAPL'', nextDate = 20058, avgMove = Number 15,
               lastUpdated = 1717243200500\<rparr>"
        "[''earnings:AAPL'' \<mapsto>
          (\<lparr>symbol = ''AAPL'', nextDate = 20058, avgMove = Number 15,
            lastUpdated = 1717243200500\<rparr>, 2592000)]"]
  by (simp add: eval_defs)

section \<open>The scheduler\<close>

declare mainLoop.simps [simp del]








lemma tryBlock_fst_store:
  "fst (tryBlock pf w store symb) = fst (tryBlock pf w store2 symb)"
  by (simp add: tryBlock_def Let_def
      split: fetched.splits option.splits price_data.splits list.splits)

lemma processSymbol_fst_store:
  "fst (processSymbol pf w store symb) = fst (processSymbol pf w store2 symb)"
  using tryBlock_fst_store [of pf w store symb store2]
  by (cases "tryBlock pf w store symb"; cases "tryBlock pf w store2 symb")
     (auto simp: processSymbol_def split: sum.splits)

lemma processBatch_results:
  "fst (processBatch pf env batch store) =
     map (\<lambda>s. fst (processSymbol pf (env s) Map.empty s)) batch"
proof (induction batch arbitrary: store)
  case Nil
  then show ?case by simp
next
  case (Cons s batch)
  obtain r store1 where p: "processSymbol pf (env s) store s = (r, store1)"
    by (cases "processSymbol pf (env s) store s")
  obtain rs store2 where b: "processBatch pf env batch store1 = (rs, store2)"
    by (cases "processBatch pf env batch store1")
  from p have "r = fst (processSymbol pf (env s) Map.empty s)"
    using processSymbol_fst_store [of pf "env s" store s Map.empty] by simp
  moreover from b Cons.IH [of store1]
  have "rs = map (\<lambda>s. fst (processSymbol pf (env s) Map.empty s)) batch" by simp
  ultimately show ?case using p b by simp
qed

lemma mainLoop_done: "\<not> i < length S \<Longrightarrow> mainLoop pf env S i st = st"
  by (subst mainLoop.simps) simp

lemma mainLoop_step:
  assumes "i < length S"
  shows "mainLoop pf env S i st =
     mainLoop pf env S (i + 900)
       \<lparr>processed = processed st + length (take 900 (drop i S)),
        successful = successful st +
          length (filter (\<lambda>s. fst (processSymbol pf (env s) Map.empty s) \<noteq> None)
                    (take 900 (drop i S))),
        failed = failed st +
          length (filter (\<lambda>s. fst (processSymbol pf (env s) Map.empty s) = None)
                    (take 900 (drop i S))),
        cache = snd (processBatch pf env (take 900 (drop i S)) (cache st)),
        steps = steps st @ Batch (take 900 (drop i S)) #
                  (if i + 900 < length S then [Sleep 60000] else [])\<rparr>"
proof -
  obtain results store' where
    b: "processBatch pf env (take 900 (drop i S)) (cache st) = (results, store')"
    by (cases "processBatch pf env (take 900 (drop i S)) (cache st)")
  then have r: "results =
      map (\<lambda>s. fst (processSymbol pf (env s) Map.empty s)) (take 900 (drop i S))"
    using processBatch_results [of pf env "take 900 (drop i S)" "cache st"] by simp
  show ?thesis
    using assms b
    by (subst mainLoop.simps)
       (simp add: Let_def slice_def BATCH_SIZE_def r comp_def)
qed

lemma filter_take_drop:
  "length (filter P (take n xs)) + length (filter P (drop n xs)) = length (filter P xs)"
proof -
  have "filter P xs = filter P (take n xs @ drop n xs)" by simp
  then show ?thesis by (simp only: filter_append length_append)
qed

lemma mainLoop_counts:
  "processed (mainLoop pf env S i st) = processed st + (length S - i) \<and>
   successful (mainLoop pf env S i st) = successful st +
     length (filter (\<lambda>s. fst (processSymbol pf (env s) Map.empty s) \<noteq> None) (drop i S)) \<and>
   failed (mainLoop pf env S i st) = failed st +
     length (filter (\<lambda>s. fst (processSymbol pf (env s) Map.empty s) = None) (drop i S))"
proof (induction "length S - i" arbitrary: i st rule: less_induct)
  case less
  show ?case
  proof (cases "i < length S")
    case False
    then show ?thesis by (simp add: mainLoop_done)
  next
    case True
    then have m: "length S - (i + 900) < length S - i" by arith
    have d: "drop (i + 900) S = drop 900 (drop i S)" by (simp add: add.commute)
    have l: "length (take 900 (drop i S)) + (length S - (i + 900)) = length S - i"
      using True by (simp add: min_def)
    note f = filter_take_drop [of _ 900 "drop i S"]
    show ?thesis
      unfolding mainLoop_step [OF True]
      using less [OF m, of "\<lparr>processed = processed st + length (take 900 (drop i S)),
        successful = successful st +
          length (filter (\<lambda>s. fst (processSymbol pf (env s) Map.empty s) \<noteq> None)
                    (take 900 (drop i S))),
        failed = failed st +
          length (filter (\<lambda>s. fst (processSymbol pf (env s) Map.empty s) = None)
                    (take 900 (drop i S))),
        cache = snd (processBatch pf env (take 900 (drop i S)) (cache st)),
        steps = steps st @ Batch (take 900 (drop i S)) #
                  (if i + 900 < length S then [Sleep 60000] else [])\<rparr>"]
        l f [of "\<lambda>s. fst (processSymbol pf (env s) Map.empty s) \<noteq> None"]
        f [of "\<lambda>s. fst (processSymbol pf (env s) Map.empty s) = None"]
      by (simp only: d run.simps) linarith
  qed
qed


lemma main_Completed:
  "main pf (Body S) env store =
     Completed (mainLoop pf env S 0
       \<lparr>processed = 0, successful = 0, failed = 0, cache = store, steps = []\<rparr>)"
  by (simp add: main_def getAllSymbols_def)




lemma main_counts:
  "\<exists>run. main pf (Body S) env store = Completed run \<and>
     processed run = length S \<and>
     successful run =
       length (filter (\<lambda>s. fst (processSymbol pf (env s) Map.empty s) \<noteq> None) S) \<and>
     failed run =
       length (filter (\<lambda>s. fst (processSymbol pf (env s) Map.empty s) = None) S)"
  using mainLoop_counts [of pf env S 0
      "\<lparr>processed = 0, successful = 0, failed = 0, cache = store, steps = []\<rparr>"]
  by (simp add: main_Completed)

lemma tryBlock_thrown:
  "fst (tryBlock pf w store symb) = Inl err \<Longrightarrow> processSymbol pf w store symb = (None, store)"
  using tryBlock_cases [of pf w store symb]
  by (auto simp: processSymbol_def)

text \<open>
  C6. An error thrown inside the \<open>try\<close> block of one symbol is caught: \<open>processSymbol\<close>
  returns \<open>null\<close> for it and leaves the store alone. A batch yields one result per
  symbol, each the result the symbol has on its own, so the results of the other symbols
  do not depend on what the world answers for the failing one; the run completes with
  every symbol processed, the \<open>null\<close> results counted as failed and the others as
  successful.
\<close>

theorem symbol_error_isolated:
  "(\<forall>err. fst (tryBlock pf (env s) store s) = Inl err \<longrightarrow>
      processSymbol pf (env s) store s = (None, store)) \<and>
   fst (processBatch pf env batch store) =
     map (\<lambda>s. fst (processSymbol pf (env s) Map.empty s)) batch \<and>
   (\<forall>env'. (\<forall>s'. s' \<noteq> s \<longrightarrow> env' s' = env s') \<longrightarrow>
      (\<forall>j<length batch. batch ! j \<noteq> s \<longrightarrow>
         fst (processBatch pf env' batch store) ! j =
         fst (processBatch pf env batch store) ! j)) \<and>
   (\<exists>run. main pf (Body SYMBOLS) env store = Completed run \<and>
      processed run = length SYMBOLS \<and>
      successful run =
        length (filter (\<lambda>s. fst (processSymbol pf (env s) Map.empty s) \<noteq> None) SYMBOLS) \<and>
      failed run =
        length (filter (\<lambda>s. fst (processSymbol pf (env s) Map.empty s) = None) SYMBOLS))"
proof (intro conjI allI impI)
  fix err assume "fst (tryBlock pf (env s) store s) = Inl err"
  then show "processSymbol pf (env s) store s = (None, store)" by (rule tryBlock_thrown)
next
  show "fst (processBatch pf env batch store) =
     map (\<lambda>s. fst (processSymbol pf (env s) Map.empty s)) batch"
    by (rule processBatch_results)
next
  fix env' j
  assume "\<forall>s'. s' \<noteq> s \<longrightarrow> env' s' = env s'" "j < length batch" "batch ! j \<noteq> s"
  then show "fst (processBatch pf env' batch store) ! j =
         fst (processBatch pf env batch store) ! j"
    by (simp add: processBatch_results)
next
  show "\<exists>run. main pf (Body SYMBOLS) env store = Completed run \<and>
      processed run = length SYMBOLS \<and>
      successful run =
        length (filter (\<lambda>s. fst (processSymbol pf (env s) Map.empty s) \<noteq> None) SYMBOLS) \<and>
      failed run =
        length (filter (\<lambda>s. fst (processSymbol pf (env s) Map.empty s) = None) SYMBOLS)"
    by (rule main_counts)
qed

theorem symbol_error_isolated_witness:
  "fst (tryBlock Number ((example_world [])\<lparr>calendar := Rejected\<rparr>) Map.empty ''BAD'')
     = Inl FetchError \<and>
   fst (processBatch Number
     (\<lambda>s. if s = ''BAD'' then (example_world [])\<lparr>calendar := Rejected\<rparr>
          else example_world [\<lparr>date = 19509\<rparr>, \<lparr>date = 20058\<rparr>])
     [''BAD'', ''AAPL''] Map.empty) =
     [None, Some \<lparr>symbol = ''AAPL'', nextDate = 20058, avgMove = Number 15,
                  lastUpdated = 1717243200500\<rparr>] \<and>
   (\<exists>run. main Number (Body [''BAD'', ''AAPL''])
      (\<lambda>s. if s = ''BAD'' then (example_world [])\<lparr>calendar := Rejected\<rparr>
           else example_world [\<lparr>date = 19509\<rparr>, \<lparr>date = 20058\<rparr>]) Map.empty = Completed run \<and>
      processed run = 2 \<and> successful run = 1 \<and> failed run = 1)"
proof -
  let ?env = "\<lambda>s. if s = ''BAD'' then (example_world [])\<lparr>calendar := Rejected\<rparr>
                 else example_world [\<lparr>date = 19509\<rparr>, \<lparr>date = 20058\<rparr>]"
  note t = symbol_error_isolated
    [of Number ?env "''BAD''" Map.empty "[''BAD'', ''AAPL'']" "[''BAD'', ''AAPL'']"]
  have a: "fst (tryBlock Number ((example_world [])\<lparr>calendar := Rejected\<rparr>) Map.empty ''BAD'')
      = Inl FetchError"
    by (simp add: tryBlock_def example_world_def)
  have b: "fst (processBatch Number ?env [''BAD'', ''AAPL''] Map.empty) =
      [None, Some \<lparr>symbol = ''AAPL'', nextDate = 20058, avgMove = Number 15,
                   lastUpdated = 1717243200500\<rparr>]"
    using t [THEN conjunct2, THEN conjunct1] by (simp add: eval_defs)
  from t [THEN conjunct2, THEN conjunct2, THEN conjunct2] obtain run where
    r: "main Number (Body [''BAD'', ''AAPL'']) ?env Map.empty = Completed run"
      "processed run = length [''BAD'', ''AAPL'']"
      "successful run = length (filter
         (\<lambda>s. fst (processSymbol Number (?env s) Map.empty s) \<noteq> None) [''BAD'', ''AAPL''])"
      "failed run = length (filter
         (\<lambda>s. fst (processSymbol Number (?env s) Map.empty s) = None) [''BAD'', ''AAPL''])"
    by blast
  have "processed run = 2" using r(2) by simp
  moreover have "successful run = 1" using r(3) by (simp add: eval_defs)
  moreover have "failed run = 1" using r(4) by (simp add: eval_defs)
  ultimately show ?thesis using a b r(1) by blast
qed

text \<open>
  C9. A summary that \<open>processSymbol\<close> returns has been written under the key
  \<open>earnings:\<close> followed by the symbol, with an expiry of 2592000 seconds, in place of
  whatever the key held. When \<open>redis.set\<close> fails the symbol gets \<open>null\<close> and the store
  is unchanged; the run still completes with every symbol processed and that symbol among
  the failed ones.
\<close>

theorem summary_stored:
  "(\<forall>r. fst (processSymbol pf w store symb) = Some r \<longrightarrow>
      snd (processSymbol pf w store symb) = store(''earnings:'' @ symb \<mapsto> (r, 2592000))) \<and>
   (\<not> redisSetOk w \<longrightarrow> processSymbol pf w store symb = (None, store)) \<and>
   (\<forall>s\<in>set SYMBOLS. \<not> redisSetOk (env s) \<longrightarrow>
      (\<exists>run. main pf (Body SYMBOLS) env store = Completed run \<and>
         processed run = length SYMBOLS \<and> 0 < failed run \<and>
         failed run =
           length (filter (\<lambda>s. fst (processSymbol pf (env s) Map.empty s) = None) SYMBOLS)))"
proof (intro conjI allI impI ballI)
  fix r assume "fst (processSymbol pf w store symb) = Some r"
  with processSymbol_cases [of pf w store symb]
  show "snd (processSymbol pf w store symb) = store(''earnings:'' @ symb \<mapsto> (r, 2592000))"
    by (auto simp: redisKey_def TTL_def)
next
  assume "\<not> redisSetOk w"
  with processSymbol_cases [of pf w store symb]
  show "processSymbol pf w store symb = (None, store)" by auto
next
  fix s assume s: "s \<in> set SYMBOLS" "\<not> redisSetOk (env s)"
  from processSymbol_cases [of pf "env s" Map.empty s] s(2)
  have "fst (processSymbol pf (env s) Map.empty s) = None" by auto
  with s(1) have "filter (\<lambda>s. fst (processSymbol pf (env s) Map.empty s) = None) SYMBOLS \<noteq> []"
    by (auto simp: filter_empty_conv)
  then have "0 < length (filter (\<lambda>s. fst (processSymbol pf (env s) Map.empty s) = None) SYMBOLS)"
    by simp
  with main_counts [of pf SYMBOLS env store]
  show "\<exists>run. main pf (Body SYMBOLS) env store = Completed run \<and>
         processed run = length SYMBOLS \<and> 0 < failed run \<and>
         failed run =
           length (filter (\<lambda>s. fst (processSymbol pf (env s) Map.empty s) = None) SYMBOLS)"
    by auto
qed

theorem summary_stored_witness:
  "snd (processSymbol Number (example_world [\<lparr>date = 19509\<rparr>, \<lparr>date = 20058\<rparr>])
         [''earnings:AAPL'' \<mapsto>
           (\<lparr>symbol = ''AAPL'', nextDate = 19000, avgMove = Number 1, lastUpdated = 0\<rparr>, 2592000)]
         ''AAPL'')
     = [''earnings:AAPL'' \<mapsto>
         (\<lparr>symbol = ''AAPL'', nextDate = 20058, avgMove = Number 15, lastUpdated = 1717243200500\<rparr>,
          2592000)] \<and>
   processSymbol Number
     ((example_world [\<lparr>date = 19509\<rparr>, \<lparr>date = 20058\<rparr>])\<lparr>redisSetOk := False\<rparr>)
     Map.empty ''AAPL'' = (None, Map.empty) \<and>
   (\<exists>run. main Number (Body [''AAPL''])
      (\<lambda>s. (example_world [\<lparr>date = 19509\<rparr>, \<lparr>date = 20058\<rparr>])\<lparr>redisSetOk := False\<rparr>)
      Map.empty = Completed run \<and> processed run = 1 \<and> failed run = 1)"
proof -
  let ?w = "example_world [\<lparr>date = 19509\<rparr>, \<lparr>date = 20058\<rparr>]"
  let ?old = "[''earnings:AAPL'' \<mapsto>
      (\<lparr>symbol = ''AAPL'', nextDate = 19000, avgMove = Number 1, lastUpdated = 0\<rparr>, 2592000::nat)]"
  note t1 = summary_stored [of Number ?w ?old "''AAPL''" "[]" "\<lambda>s. example_world []"]
  note t2 = summary_stored
    [of Number "?w\<lparr>redisSetOk := False\<rparr>" Map.empty "''AAPL''" "[''AAPL'']"
        "\<lambda>s. ?w\<lparr>redisSetOk := False\<rparr>"]
  have f: "fst (processSymbol Number ?w ?old ''AAPL'') =
      Some \<lparr>symbol = ''AAPL'', nextDate = 20058, avgMove = Number 15, lastUpdated = 1717243200500\<rparr>"
    by (simp add: eval_defs)
  from t1 [THEN conjunct1, rule_format, OF f]
  have a: "snd (processSymbol Number ?w ?old ''AAPL'') =
      [''earnings:AAPL'' \<mapsto>
         (\<lparr>symbol = ''AAPL'', nextDate = 20058, avgMove = Number 15, lastUpdated = 1717243200500\<rparr>,
          2592000)]"
    by simp
  have n: "\<not> redisSetOk (?w\<lparr>redisSetOk := False\<rparr>)" by simp
  from t2 [THEN conjunct2, THEN conjunct1, rule_format, OF n]
  have b: "processSymbol Number (?w\<lparr>redisSetOk := False\<rparr>) Map.empty ''AAPL''
      = (None, Map.empty)" .
  have m: "''AAPL'' \<in> set [''AAPL'']" by simp
  from t2 [THEN conjunct2, THEN conjunct2, rule_format, OF m n] obtain run where
    r: "main Number (Body [''AAPL'']) (\<lambda>s. ?w\<lparr>redisSetOk := False\<rparr>) Map.empty = Completed run"
       "processed run = length [''AAPL'']"
       "failed run = length (filter
          (\<lambda>s. fst (processSymbol Number (?w\<lparr>redisSetOk := False\<rparr>) Map.empty s) = None)
          [''AAPL''])"
    by blast
  have "processed run = 1" using r(2) by simp
  moreover have "failed run = 1" using r(3) b by simp
  ultimately show ?thesis using a b r(1) by blast
qed

end
